theory Spec2Isabelle
  imports Complex_Main "HOL-Library.Sublist" "HOL-Library.AList"
begin

section \<open>Values of the Python runtime used by \<^verbatim>\<open>eventlog.py\<close>\<close>

text \<open>
  A \<^verbatim>\<open>datetime\<close> is an integer number of microseconds since 2000-01-01T00:00:00 and a
  \<^verbatim>\<open>timedelta\<close> an integer number of microseconds (both have microsecond resolution
  in Python). A number given to the module, an \<^verbatim>\<open>int\<close> or a finite \<^verbatim>\<open>float\<close>, is the
  rational number it denotes.
\<close>

type_synonym datetime = int
type_synonym timedelta = int
type_synonym pyfloat = rat
type_synonym JSONObject = "(string \<times> string) list"

datatype exn = IndexError | ZeroDivisionError | OverflowError | Empty | Blocked | AppError string

definition seconds :: "int \<Rightarrow> timedelta" where
  "seconds n = n * 1000000"

definition hms :: "int \<Rightarrow> int \<Rightarrow> int \<Rightarrow> datetime" where
  "hms h m s = seconds ((h * 60 + m) * 60 + s)"

definition INFO :: int where "INFO = 20"
definition WARN :: int where "WARN = 30"
definition ERROR :: int where "ERROR = 40"

text \<open>
  \<^verbatim>\<open>_divide_and_round\<close> of the standard library's \<^verbatim>\<open>datetime\<close>: the quotient of two
  integers rounded to the nearest integer, a tie to the even one.
\<close>

definition divide_and_round :: "int \<Rightarrow> int \<Rightarrow> int" where
  "divide_and_round a b =
     (let q = a div b; r = 2 * (a mod b);
          greater_than_half = (if b > 0 then r > b else r < b)
      in if greater_than_half \<or> (r = b \<and> q mod 2 = 1) then q + 1 else q)"

definition round_half_even :: "rat \<Rightarrow> int" where
  "round_half_even x = (case quotient_of x of (n, d) \<Rightarrow> divide_and_round n d)"

text \<open>
  Float arithmetic is IEEE 754 binary64 with rounding to nearest, ties to even: the
  result of an operation is its exact result rounded to 53 significant bits, to a
  multiple of \<open>2\<^sup>-\<^sup>1\<^sup>0\<^sup>7\<^sup>4\<close> below the normal range. \<open>round_binary64\<close> is that rounding
  without the upper limit of the format; \<open>to_double\<close> adds the limit: a result of
  magnitude \<open>2\<^sup>1\<^sup>0\<^sup>2\<^sup>4\<close> or more is an infinity. Zeros and infinities are kept without
  their signs.
\<close>

function bit_length :: "int \<Rightarrow> int" where
  "bit_length n = (if n \<le> 0 then 0 else 1 + bit_length (n div 2))"
  by pat_completeness auto
termination
  by (relation "measure nat") auto

declare bit_length.simps [simp del]

definition pow2 :: "int \<Rightarrow> rat" where
  "pow2 e = (if 0 \<le> e then 2 ^ nat e else 1 / 2 ^ nat (- e))"

text \<open>For \<open>a > 0\<close>, the exponent \<open>e\<close> with \<open>2\<^sup>e \<le> a < 2\<^sup>e\<^sup>+\<^sup>1\<close>.\<close>

definition ilog2 :: "rat \<Rightarrow> int" where
  "ilog2 a =
     (case quotient_of a of
        (n, d) \<Rightarrow>
          (let e = bit_length n - bit_length d
           in if pow2 e \<le> a then e else e - 1))"

definition round_binary64 :: "rat \<Rightarrow> rat" where
  "round_binary64 q =
     (if q = 0 then 0
      else (let u = max (ilog2 \<bar>q\<bar>) (- 1022) - 52;
                m = round_half_even (\<bar>q\<bar> / pow2 u)
            in sgn q * of_int m * pow2 u))"

datatype float_result = Finite rat | Infinity

definition to_double :: "rat \<Rightarrow> float_result" where
  "to_double q =
     (let r = round_binary64 q
      in if r \<noteq> 0 \<and> 1024 \<le> ilog2 \<bar>r\<bar> then Infinity else Finite r)"

text \<open>
  True division \<^verbatim>\<open>a / b\<close>: it raises on a zero divisor and rounds the quotient to a
  float, an infinity beyond the limit, as the division of floats does.
\<close>

definition truediv :: "pyfloat \<Rightarrow> pyfloat \<Rightarrow> exn + float_result" where
  "truediv a b = (if b = 0 then Inl ZeroDivisionError else Inr (to_double (a / b)))"

text \<open>
  \<^verbatim>\<open>timedelta * float\<close>: an infinite factor has no integer ratio, which raises
  OverflowError; otherwise the microseconds are multiplied by the numerator of the
  float's integer ratio and divided by its denominator with \<^verbatim>\<open>_divide_and_round\<close>,
  and the product must have at most 999999999 days of magnitude.
  \<^verbatim>\<open>datetime + timedelta\<close> must fall in the years 1 to 9999.
\<close>

definition scale :: "timedelta \<Rightarrow> rat \<Rightarrow> int" where
  "scale usec k = (case quotient_of k of (a, b) \<Rightarrow> divide_and_round (usec * a) b)"

definition timedelta_ok :: "timedelta \<Rightarrow> bool" where
  "timedelta_ok us =
     (- 999999999 \<le> us div (86400 * 1000000) \<and> us div (86400 * 1000000) \<le> 999999999)"

definition timedelta_mul :: "timedelta \<Rightarrow> float_result \<Rightarrow> exn + timedelta" where
  "timedelta_mul usec other =
     (case other of
        Infinity \<Rightarrow> Inl OverflowError
      | Finite k \<Rightarrow>
          (let us = scale usec k
           in if timedelta_ok us then Inr us else Inl OverflowError))"

definition datetime_min :: datetime where
  "datetime_min = - 730119 * (86400 * 1000000)"

definition datetime_max :: datetime where
  "datetime_max = 2921940 * (86400 * 1000000) - 1"

definition datetime_add :: "datetime \<Rightarrow> timedelta \<Rightarrow> exn + datetime" where
  "datetime_add t d =
     (if datetime_min \<le> t + d \<and> t + d \<le> datetime_max then Inr (t + d) else Inl OverflowError)"

text \<open>
  \<^verbatim>\<open>int(td.total_seconds() * 1000000)\<close>: the microseconds divided by \<open>10\<^sup>6\<close> and
  multiplied by \<open>10\<^sup>6\<close> again, each time rounded to a float, then truncated towards
  zero. A \<^verbatim>\<open>timedelta\<close> has at most 999999999 days, far below the limit of the float
  format, so neither operation is infinite.
\<close>

definition trunc_int :: "rat \<Rightarrow> int" where
  "trunc_int x = (if 0 \<le> x then \<lfloor>x\<rfloor> else \<lceil>x\<rceil>)"

definition total_seconds :: "timedelta \<Rightarrow> rat" where
  "total_seconds td = round_binary64 (of_int td / 1000000)"

definition micros :: "timedelta \<Rightarrow> int" where
  "micros td = trunc_int (round_binary64 (total_seconds td * 1000000))"

section \<open>MockIO: the deterministic clock\<close>

text \<open>
  The clock adds one second more at each call. Its sum leaves the years up to 9999,
  where the addition would raise, only after some 700000 calls; that is not modelled.
\<close>

record MockIO =
  m_now :: datetime
  m_delta :: int

definition MockIO_init :: MockIO where
  "MockIO_init = \<lparr>m_now = hms 12 30 0, m_delta = 1\<rparr>"

definition mock_clock :: "MockIO \<Rightarrow> datetime \<times> MockIO" where
  "mock_clock m =
     (let now1 = m_now m + seconds (m_delta m)
      in (now1, \<lparr>m_now = now1, m_delta = m_delta m + 1\<rparr>))"

section \<open>EventLogger\<close>

text \<open>
  One call of \<^verbatim>\<open>self.info\<close> or \<^verbatim>\<open>self.log\<close> made by \<^verbatim>\<open>step\<close>: the level, the format
  string, the argument dictionary \<^verbatim>\<open>dict(argobj, step=..., t_step=...)\<close> and the
  \<^verbatim>\<open>extra\<close> dictionary \<^verbatim>\<open>dict(extra, do=..., elapsed=...)\<close>, field by field. The
  \<^verbatim>\<open>str\<close> renderings of timestamps and durations are kept as the values they render.
\<close>

record LogCall =
  c_level :: int
  c_msg :: string
  c_argobj :: JSONObject
  c_step :: "int list"
  c_t_step :: timedelta
  c_extra :: JSONObject
  c_do :: string
  c_elapsed :: "datetime \<times> timedelta option \<times> int option"

record LogState =
  msg_parts :: "string list"
  argobj :: JSONObject
  extra :: JSONObject

text \<open>
  The logger: its clock (a callable with a state of its own), \<^verbatim>\<open>_seq\<close>, \<^verbatim>\<open>_step\<close>
  (the stack of frames, outermost first) and the calls it has made to the underlying
  logger so far.
\<close>

record 'c EventLogger =
  clock :: "'c \<Rightarrow> datetime \<times> 'c"
  io :: 'c
  seq :: int
  stack :: "(int \<times> datetime) list"
  calls :: "LogCall list"

definition EventLogger_init :: "('c \<Rightarrow> datetime \<times> 'c) \<Rightarrow> 'c \<Rightarrow> 'c EventLogger" where
  "EventLogger_init clk c = \<lparr>clock = clk, io = c, seq = 0, stack = [], calls = []\<rparr>"

definition elapsed ::
  "datetime option \<Rightarrow> 'c EventLogger \<Rightarrow> (exn + datetime \<times> timedelta \<times> int) \<times> 'c EventLogger" where
  "elapsed then0 self =
     (case (case then0 of
              Some t \<Rightarrow> Inr t
            | None \<Rightarrow> (if stack self = [] then Inl IndexError else Inr (snd (last (stack self))))) of
        Inl e \<Rightarrow> (Inl e, self)
      | Inr start \<Rightarrow>
          (case clock self (io self) of
             (now, io1) \<Rightarrow> (Inr (start, now - start, micros (now - start)), self\<lparr>io := io1\<rparr>)))"

text \<open>
  In \<^verbatim>\<open>eta\<close>, \<^verbatim>\<open>pct / 100\<close> is infinite only for an \<^verbatim>\<open>int\<close> beyond the range of the
  floats, for which the division of two \<^verbatim>\<open>int\<close>s raises OverflowError.
\<close>

definition eta :: "pyfloat \<Rightarrow> 'c EventLogger \<Rightarrow> (exn + datetime) \<times> 'c EventLogger" where
  "eta pct self =
     (case stack self of
        [] \<Rightarrow> (Inl IndexError, self)
      | frame # _ \<Rightarrow>
          (case clock self (io self) of
             (now, io1) \<Rightarrow>
               (let t0 = snd frame; el = now - t0; self1 = self\<lparr>io := io1\<rparr>
                in case truediv pct 100 of
                     Inl e \<Rightarrow> (Inl e, self1)
                   | Inr Infinity \<Rightarrow> (Inl OverflowError, self1)
                   | Inr (Finite x) \<Rightarrow>
                       (case truediv 1 x of
                          Inl e \<Rightarrow> (Inl e, self1)
                        | Inr k \<Rightarrow>
                            (case timedelta_mul el k of
                               Inl e \<Rightarrow> (Inl e, self1)
                             | Inr d \<Rightarrow>
                                 (case datetime_add t0 d of
                                    Inl e \<Rightarrow> (Inl e, self1)
                                  | Inr r \<Rightarrow> (Inr r, self1)))))))"

text \<open>
  \<^verbatim>\<open>step\<close> is a generator-based context manager. \<open>step_enter\<close> is its code up to the
  \<^verbatim>\<open>yield\<close>; it returns the generator's locals \<^verbatim>\<open>checkpoint\<close> and \<^verbatim>\<open>step_ixs\<close>, the
  \<^verbatim>\<open>LogState\<close> it yields and the logger. \<open>step_exit\<close> is the \<^verbatim>\<open>except\<close> and
  \<^verbatim>\<open>finally\<close> clauses, run with the outcome of the body of the \<^verbatim>\<open>with\<close> statement.
\<close>

definition fmt_step :: string where
  "fmt_step = ''%(t_step)s %(step)s ''"

definition step_enter ::
  "string \<Rightarrow> JSONObject \<Rightarrow> JSONObject option \<Rightarrow> 'c EventLogger
     \<Rightarrow> (datetime \<times> int list \<times> LogState) \<times> 'c EventLogger" where
  "step_enter msg argobj0 extra0 self =
     (case clock self (io self) of
        (checkpoint, io1) \<Rightarrow>
          (let seq1 = seq self + 1;
               stack1 = stack self @ [(seq1, checkpoint)];
               extra1 = (case extra0 of None \<Rightarrow> [] | Some e \<Rightarrow> e);
               step_ixs = map fst stack1;
               t_step = checkpoint - snd (hd stack1);
               rec_begin = \<lparr>c_level = INFO, c_msg = fmt_step @ msg @ ''...'',
                        c_argobj = argobj0, c_step = step_ixs, c_t_step = t_step,
                        c_extra = extra1, c_do = ''begin'',
                        c_elapsed = (checkpoint, None, None)\<rparr>
           in ((checkpoint, step_ixs, \<lparr>msg_parts = [msg], argobj = argobj0, extra = extra1\<rparr>),
               self\<lparr>io := io1, seq := seq1, stack := stack1, calls := calls self @ [rec_begin]\<rparr>)))"

definition step_exit ::
  "datetime \<Rightarrow> int list \<Rightarrow> (exn + unit) \<Rightarrow> LogState \<Rightarrow> 'c EventLogger
     \<Rightarrow> (exn + unit) \<times> 'c EventLogger" where
  "step_exit checkpoint step_ixs res info self =
     (let outcome = (case res of Inl _ \<Rightarrow> ERROR | Inr _ \<Rightarrow> INFO)
      in case elapsed (Some checkpoint) self of
           (Inl e, self1) \<Rightarrow> (Inl e, self1)
         | (Inr el, self1) \<Rightarrow>
             (let rec_end = \<lparr>c_level = outcome, c_msg = concat (fmt_step # msg_parts info) @ ''.'',
                          c_argobj = argobj info, c_step = step_ixs, c_t_step = fst (snd el),
                          c_extra = extra info, c_do = ''end'',
                          c_elapsed = (fst el, Some (fst (snd el)), Some (snd (snd el)))\<rparr>;
                  self2 = self1\<lparr>calls := calls self1 @ [rec_end]\<rparr>
              in if stack self2 = [] then (Inl IndexError, self2)
                 else (res, self2\<lparr>stack := butlast (stack self2)\<rparr>)))"

definition step ::
  "string \<Rightarrow> JSONObject \<Rightarrow> JSONObject option
     \<Rightarrow> (LogState \<Rightarrow> 'c EventLogger \<Rightarrow> (exn + unit) \<times> LogState \<times> 'c EventLogger)
     \<Rightarrow> 'c EventLogger \<Rightarrow> (exn + unit) \<times> 'c EventLogger" where
  "step msg argobj0 extra0 body self =
     (case step_enter msg argobj0 extra0 self of
        ((checkpoint, step_ixs, info), self1) \<Rightarrow>
          (case body info self1 of
             (res, info1, self2) \<Rightarrow> step_exit checkpoint step_ixs res info1 self2))"

section \<open>Client code of a logger\<close>

text \<open>
  The code that uses one logger, as far as the logger can tell: nested \<^verbatim>\<open>with\<close>
  statements over \<^verbatim>\<open>step\<close>, in sequence, bodies that raise, callers that catch, calls of
  \<^verbatim>\<open>elapsed()\<close> and \<^verbatim>\<open>eta(pct)\<close>, and updates of the yielded \<^verbatim>\<open>LogState\<close>. \<open>run\<close>
  executes such a script as the body of the innermost enclosing \<^verbatim>\<open>with\<close>, whose
  \<^verbatim>\<open>LogState\<close> it is given.
\<close>

datatype prog =
    Pass
  | Raise string
  | Seq prog prog
  | Try prog
  | With string JSONObject prog
  | Append string
  | SetArg string string
  | CallElapsed
  | CallEta pyfloat

primrec run ::
  "prog \<Rightarrow> LogState \<Rightarrow> 'c EventLogger \<Rightarrow> (exn + unit) \<times> LogState \<times> 'c EventLogger" where
  "run Pass = (\<lambda>info self. (Inr (), info, self))"
| "run (Raise e) = (\<lambda>info self. (Inl (AppError e), info, self))"
| "run (Seq p q) = (\<lambda>info self.
     case run p info self of
       (res, info1, self1) \<Rightarrow>
         (case res of Inl e \<Rightarrow> (Inl e, info1, self1) | Inr _ \<Rightarrow> run q info1 self1))"
| "run (Try p) = (\<lambda>info self.
     case run p info self of (res, info1, self1) \<Rightarrow> (Inr (), info1, self1))"
| "run (With msg argobj0 p) = (\<lambda>info self.
     case step msg argobj0 None (run p) self of (res, self1) \<Rightarrow> (res, info, self1))"
| "run (Append s) = (\<lambda>info self. (Inr (), info\<lparr>msg_parts := msg_parts info @ [s]\<rparr>, self))"
| "run (SetArg k v) = (\<lambda>info self. (Inr (), info\<lparr>argobj := AList.update k v (argobj info)\<rparr>, self))"
| "run CallElapsed = (\<lambda>info self.
     case elapsed None self of
       (res, self1) \<Rightarrow> ((case res of Inl e \<Rightarrow> Inl e | Inr _ \<Rightarrow> Inr ()), info, self1))"
| "run (CallEta pct) = (\<lambda>info self.
     case eta pct self of
       (res, self1) \<Rightarrow> ((case res of Inl e \<Rightarrow> Inl e | Inr _ \<Rightarrow> Inr ()), info, self1))"

text \<open>The sequence numbers given out, read off the begin records in the order of the calls.\<close>

definition assigned :: "LogCall list \<Rightarrow> int list" where
  "assigned cs = map (\<lambda>c. last (c_step c)) (filter (\<lambda>c. c_do c = ''begin'') cs)"

text \<open>
  The module's doctest: the state of the logger inside the outer \<^verbatim>\<open>with\<close>, after the
  two nested steps and the call of \<^verbatim>\<open>elapsed()\<close>, where \<^verbatim>\<open>eta(pct=25)\<close> is called.
\<close>

definition event0 :: "MockIO EventLogger" where
  "event0 = EventLogger_init mock_clock MockIO_init"

definition doctest_body :: prog where
  "doctest_body =
     Seq (With ''lay foundation %(depth)d ft deep'' [(''depth'', ''20'')]
            (Seq (Append '' at %(temp)d degrees'') (SetArg ''temp'' ''65'')))
       (Seq (With ''frame %(stories)d story house'' [(''stories'', ''2'')] Pass)
          CallElapsed)"

definition doctest_at_eta :: "MockIO EventLogger" where
  "doctest_at_eta =
     (case step_enter ''Build %(product)s'' [(''product'', ''house'')] None event0 of
        ((checkpoint, step_ixs, info), self1) \<Rightarrow> snd (snd (run doctest_body info self1)))"




text \<open>
  What a script leaves of the logger it ran on: the clock and the stack as they were,
  \<^verbatim>\<open>_seq\<close> no smaller, and the calls extended by records whose sequence numbers are
  new, increasing and at most the new \<^verbatim>\<open>_seq\<close>.
\<close>

definition framed :: "'c EventLogger \<Rightarrow> 'c EventLogger \<Rightarrow> bool" where
  "framed self self1 \<longleftrightarrow>
     clock self1 = clock self \<and> stack self1 = stack self \<and> seq self \<le> seq self1 \<and>
     (\<exists>new. calls self1 = calls self @ new \<and> sorted_wrt (<) (assigned new) \<and>
        (\<forall>n \<in> set (assigned new). seq self < n \<and> n \<le> seq self1))"

section \<open>TextFilter and TextHandler\<close>

text \<open>
  A \<^verbatim>\<open>logging.LogRecord\<close>, as far as the handlers of this module read it: its level and
  the message \<^verbatim>\<open>record.getMessage()\<close> renders.
\<close>

record LogRecord =
  levelno :: int
  message :: string

definition startswith :: "string \<Rightarrow> string \<Rightarrow> bool" where
  "startswith s p = prefix p s"

text \<open>\<^verbatim>\<open>TextFilter.filter\<close>: the loop over \<^verbatim>\<open>self.skips\<close>, returning at the first match.\<close>

fun TextFilter_filter :: "string list \<Rightarrow> LogRecord \<Rightarrow> bool" where
  "TextFilter_filter [] record = True"
| "TextFilter_filter (skip # skips) record =
     (if startswith (message record) skip then False else TextFilter_filter skips record)"

text \<open>
  A \<^verbatim>\<open>TextHandler\<close> is a \<^verbatim>\<open>StreamHandler\<close> whose only filter is a \<^verbatim>\<open>TextFilter\<close>.
  \<^verbatim>\<open>logging.Handler.handle\<close> asks the filters and emits the record when they accept
  it; the stream is the list of the records written to it.
\<close>

record TextHandler =
  skips :: "string list"
  stream :: "LogRecord list"

definition TextHandler_handle :: "LogRecord \<Rightarrow> TextHandler \<Rightarrow> bool \<times> TextHandler" where
  "TextHandler_handle record h =
     (let rv = TextFilter_filter (skips h) record
      in if rv then (rv, h\<lparr>stream := stream h @ [record]\<rparr>) else (rv, h))"

section \<open>DebounceHandler\<close>

text \<open>
  \<^verbatim>\<open>queue.Queue\<close>, used by one thread at a time, with its items oldest first. A
  \<^verbatim>\<open>maxsize\<close> of zero or less is an unbounded queue. A call that would block
  forever is the error \<open>Blocked\<close>.
\<close>

definition q_full :: "int \<Rightarrow> 'a list \<Rightarrow> bool" where
  "q_full maxsize q = (0 < maxsize \<and> maxsize \<le> int (length q))"

definition q_empty :: "'a list \<Rightarrow> bool" where
  "q_empty q = (q = [])"

definition q_get_nowait :: "'a list \<Rightarrow> exn + 'a \<times> 'a list" where
  "q_get_nowait q = (case q of [] \<Rightarrow> Inl Empty | x # xs \<Rightarrow> Inr (x, xs))"

definition q_get :: "'a list \<Rightarrow> exn + 'a \<times> 'a list" where
  "q_get q = (case q of [] \<Rightarrow> Inl Blocked | x # xs \<Rightarrow> Inr (x, xs))"

definition q_put :: "int \<Rightarrow> 'a \<Rightarrow> 'a list \<Rightarrow> exn + 'a list" where
  "q_put maxsize x q = (if q_full maxsize q then Inl Blocked else Inr (q @ [x]))"

text \<open>
  A \<^verbatim>\<open>threading.Timer\<close> whose function is \<^verbatim>\<open>self.flush\<close>: started and waiting,
  cancelled, or run. \<^verbatim>\<open>cancel()\<close> on a timer that is not waiting changes nothing.
\<close>

datatype timer_status = Pending | Cancelled | Fired

record Timer =
  t_interval :: pyfloat
  t_status :: timer_status

definition cancel :: "nat \<Rightarrow> Timer list \<Rightarrow> Timer list" where
  "cancel i ts =
     (if i < length ts \<and> t_status (ts ! i) = Pending
      then ts[i := (ts ! i)\<lparr>t_status := Cancelled\<rparr>] else ts)"

text \<open>
  The handler. \<open>target\<close> is the list of the records handed to
  \<^verbatim>\<open>self.target.handle\<close> so far; \<open>timers\<close> holds every \<^verbatim>\<open>Timer\<close> object created so
  far, and \<open>timer\<close> (the attribute \<^verbatim>\<open>_timer\<close>) refers to one of them by its index.
\<close>

record DebounceHandler =
  target :: "LogRecord list"
  buffer :: "LogRecord list"
  maxsize :: int
  interval :: pyfloat
  flushLevel :: int
  timer :: "nat option"
  timers :: "Timer list"

definition start :: "DebounceHandler \<Rightarrow> DebounceHandler" where
  "start self =
     self\<lparr>timers := timers self @ [\<lparr>t_interval = interval self, t_status = Pending\<rparr>],
          timer := Some (length (timers self))\<rparr>"

definition DebounceHandler_init :: "int \<Rightarrow> pyfloat \<Rightarrow> int \<Rightarrow> DebounceHandler" where
  "DebounceHandler_init capacity interval0 flushLevel0 =
     start \<lparr>target = [], buffer = [], maxsize = capacity, interval = interval0,
            flushLevel = flushLevel0, timer = None, timers = []\<rparr>"

function flush :: "DebounceHandler \<Rightarrow> exn + DebounceHandler" where
  "flush self =
     (if \<not> q_empty (buffer self) then
        (case q_get (buffer self) of
           Inr (record, q1) \<Rightarrow> flush (self\<lparr>buffer := q1, target := target self @ [record]\<rparr>)
         | Inl e \<Rightarrow> (if e = Empty then flush self else Inl e))
      else Inr self)"
  by pat_completeness auto
termination
  by (relation "measure (\<lambda>self. length (buffer self))")
     (auto simp: q_get_def q_empty_def split: list.splits)

declare flush.simps [simp del]

definition stop :: "DebounceHandler \<Rightarrow> exn + DebounceHandler" where
  "stop self =
     flush (case timer self of
              Some i \<Rightarrow> self\<lparr>timers := cancel i (timers self), timer := None\<rparr>
            | None \<Rightarrow> self)"

definition emit :: "LogRecord \<Rightarrow> DebounceHandler \<Rightarrow> exn + DebounceHandler" where
  "emit record self =
     (let self1 = (case timer self of
                     Some i \<Rightarrow> self\<lparr>timers := cancel i (timers self)\<rparr>
                   | None \<Rightarrow> self)
      in case (if q_full (maxsize self1) (buffer self1)
               then (case q_get_nowait (buffer self1) of
                       Inl e \<Rightarrow> Inl e
                     | Inr (_, q1) \<Rightarrow> Inr q1)
               else Inr (buffer self1)) of
           Inl e \<Rightarrow> Inl e
         | Inr q1 \<Rightarrow>
             (case q_put (maxsize self1) record q1 of
                Inl e \<Rightarrow> Inl e
              | Inr q2 \<Rightarrow>
                  (let self2 = self1\<lparr>buffer := q2\<rparr>
                   in if levelno record \<ge> flushLevel self2 then flush self2
                      else Inr (start self2))))"

text \<open>
  \<^verbatim>\<open>Timer.run\<close>, when the interval of timer \<open>i\<close> has passed: a timer that is still
  waiting calls \<^verbatim>\<open>self.flush\<close>.
\<close>

definition timer_run :: "nat \<Rightarrow> DebounceHandler \<Rightarrow> exn + DebounceHandler" where
  "timer_run i self =
     (if i < length (timers self) \<and> t_status (timers self ! i) = Pending
      then flush (self\<lparr>timers := (timers self)[i := (timers self ! i)\<lparr>t_status := Fired\<rparr>]\<rparr>)
      else Inr self)"

text \<open>The indices of the timers that are waiting to fire.\<close>

definition pending :: "DebounceHandler \<Rightarrow> nat list" where
  "pending self = filter (\<lambda>j. t_status (timers self ! j) = Pending) [0..<length (timers self)]"

text \<open>
  What can happen to a handler, one call at a time: the methods \<^verbatim>\<open>emit\<close>,
  \<^verbatim>\<open>flush\<close>, \<^verbatim>\<open>stop\<close> and \<^verbatim>\<open>start\<close>, and the expiry of a timer.
\<close>

datatype event = Emit LogRecord | Flush | Stop | Start | Expire nat

fun handle_event :: "event \<Rightarrow> DebounceHandler \<Rightarrow> exn + DebounceHandler" where
  "handle_event (Emit record) self = emit record self"
| "handle_event Flush self = flush self"
| "handle_event Stop self = stop self"
| "handle_event Start self = Inr (start self)"
| "handle_event (Expire i) self = timer_run i self"

fun run_events :: "event list \<Rightarrow> DebounceHandler \<Rightarrow> exn + DebounceHandler" where
  "run_events [] self = Inr self"
| "run_events (ev # evs) self =
     (case handle_event ev self of Inl e \<Rightarrow> Inl e | Inr self1 \<Rightarrow> run_events evs self1)"

text \<open>
  The bound \<^verbatim>\<open>queue.Queue\<close> keeps on its own items: none when \<^verbatim>\<open>maxsize\<close> is zero or
  less, \<^verbatim>\<open>maxsize\<close> otherwise.
\<close>

definition buffer_ok :: "DebounceHandler \<Rightarrow> bool" where
  "buffer_ok self = (maxsize self \<le> 0 \<or> int (length (buffer self)) \<le> maxsize self)"

text \<open>
  The buffer \<^verbatim>\<open>emit\<close> builds before it decides between flushing and scheduling, and
  the timers after its call of \<^verbatim>\<open>timer.cancel()\<close>.
\<close>

definition enqueued :: "LogRecord \<Rightarrow> DebounceHandler \<Rightarrow> LogRecord list" where
  "enqueued record self =
     (if q_full (maxsize self) (buffer self) then tl (buffer self) else buffer self) @ [record]"

definition cancelled :: "DebounceHandler \<Rightarrow> Timer list" where
  "cancelled self = (case timer self of Some i \<Rightarrow> cancel i (timers self) | None \<Rightarrow> timers self)"

text \<open>Every waiting timer is the one the handler holds in \<^verbatim>\<open>_timer\<close>.\<close>

definition tidy :: "DebounceHandler \<Rightarrow> bool" where
  "tidy self = (set (pending self) \<subseteq> set_option (timer self))"

text \<open>
  The constructor's defaults, as \<^verbatim>\<open>_integration_test\<close> uses them, and the handler
  after its \<^verbatim>\<open>stop()\<close>.
\<close>

definition d0 :: DebounceHandler where
  "d0 = DebounceHandler_init 2 (1 / 2) WARN"

definition d_stopped :: DebounceHandler where
  "d_stopped = \<lparr>target = [], buffer = [], maxsize = 2, interval = 1 / 2, flushLevel = WARN,
                 timer = None, timers = [\<lparr>t_interval = 1 / 2, t_status = Cancelled\<rparr>]\<rparr>"

section \<open>Rounding of a scaled duration\<close>






lemma to_double_zero: "to_double 0 = Finite 0"
  by (simp add: to_double_def round_binary64_def)

lemma eta_state: "snd (eta pct self) = self \<or> (\<exists>c. snd (eta pct self) = self\<lparr>io := c\<rparr>)"
  by (auto simp: eta_def Let_def split: list.splits prod.splits sum.splits float_result.splits)

lemma elapsed_state: "snd (elapsed t self) = self \<or> (\<exists>c. snd (elapsed t self) = self\<lparr>io := c\<rparr>)"
  by (auto simp: elapsed_def split: option.splits prod.splits)

section \<open>Steps and scripts\<close>

lemma step_enter_props:
  assumes "step_enter msg a e self = ((cp, ixs, info), self1)"
  shows "clock self1 = clock self"
    and "seq self1 = seq self + 1"
    and "stack self1 = stack self @ [(seq self + 1, cp)]"
    and "\<exists>b. calls self1 = calls self @ [b] \<and> c_do b = ''begin'' \<and> last (c_step b) = seq self + 1"
  using assms by (auto simp: step_enter_def Let_def split: prod.splits)

lemma step_exit_props:
  assumes "stack self2 \<noteq> []"
  shows "\<exists>d io2. step_exit cp ixs res info self2
             = (res, self2\<lparr>io := io2, calls := calls self2 @ [d], stack := butlast (stack self2)\<rparr>)
           \<and> c_do d = ''end''
           \<and> c_level d = (case res of Inl e \<Rightarrow> ERROR | Inr u \<Rightarrow> INFO)"
  using assms by (auto simp: step_exit_def elapsed_def Let_def split: prod.splits)

lemma step_unfold:
  assumes enter: "step_enter msg argobj0 extra0 self = ((checkpoint, step_ixs, info), self1)"
      and body: "body info self1 = (res, info1, self2)"
      and ne: "stack self2 \<noteq> []"
  shows "\<exists>d io2. step msg argobj0 extra0 body self
             = (res, self2\<lparr>io := io2, calls := calls self2 @ [d], stack := butlast (stack self2)\<rparr>)
           \<and> c_do d = ''end''
           \<and> c_level d = (case res of Inl e \<Rightarrow> ERROR | Inr u \<Rightarrow> INFO)"
  using step_exit_props [OF ne, of checkpoint step_ixs res info1]
  by (simp add: step_def enter body)

lemma assigned_append: "assigned (xs @ ys) = assigned xs @ assigned ys"
  by (simp add: assigned_def)

lemma framed_refl: "framed self self"
  by (simp add: framed_def assigned_def)

lemma framed_io: "framed self (self\<lparr>io := c\<rparr>)"
  by (simp add: framed_def assigned_def)

lemma framed_trans:
  assumes "framed a b" "framed b c"
  shows "framed a c"
proof -
  obtain n1 where n1: "calls b = calls a @ n1" "sorted_wrt (<) (assigned n1)"
      "\<forall>n \<in> set (assigned n1). seq a < n \<and> n \<le> seq b"
    using assms(1) by (auto simp: framed_def)
  obtain n2 where n2: "calls c = calls b @ n2" "sorted_wrt (<) (assigned n2)"
      "\<forall>n \<in> set (assigned n2). seq b < n \<and> n \<le> seq c"
    using assms(2) by (auto simp: framed_def)
  have le: "seq a \<le> seq b" "seq b \<le> seq c" using assms by (auto simp: framed_def)
  have "calls c = calls a @ (n1 @ n2)" using n1 n2 by simp
  moreover have "sorted_wrt (<) (assigned (n1 @ n2))"
    using n1 n2 by (fastforce simp: assigned_append sorted_wrt_append)
  moreover have "\<forall>n \<in> set (assigned (n1 @ n2)). seq a < n \<and> n \<le> seq c"
    using n1 n2 le by (fastforce simp: assigned_append)
  ultimately show ?thesis using assms le unfolding framed_def by (metis order_trans)
qed

lemma framed_step:
  assumes body: "\<And>info self1 res info1 self2.
                   body info self1 = (res, info1, self2) \<Longrightarrow> framed self1 self2"
      and st: "step msg a e body self = (res, self3)"
  shows "framed self self3"
proof -
  obtain cp ixs info self1 where enter: "step_enter msg a e self = ((cp, ixs, info), self1)"
    by (metis prod.exhaust)
  obtain r info1 self2 where b: "body info self1 = (r, info1, self2)"
    by (metis prod.exhaust)
  have f12: "framed self1 self2" using body b by blast
  then have bal: "stack self2 = stack self1" by (simp add: framed_def)
  have st2: "stack self2 = stack self @ [(seq self + 1, cp)]"
    using step_enter_props(3) [OF enter] bal by simp
  then have ne: "stack self2 \<noteq> []" by simp
  obtain d self3' where s3: "step msg a e body self = (r, self3')"
     "calls self3' = calls self2 @ [d]" "c_do d = ''end''"
     "stack self3' = stack self" "seq self3' = seq self2"
    using step_unfold [where body = body, OF enter b ne] st2 by auto
  have eq: "self3' = self3" using s3(1) st by simp
  obtain bg where bg: "calls self1 = calls self @ [bg]" "c_do bg = ''begin''"
      "last (c_step bg) = seq self + 1"
    using step_enter_props(4) [OF enter] by blast
  obtain new where new: "calls self2 = calls self1 @ new" "sorted_wrt (<) (assigned new)"
      "\<forall>n \<in> set (assigned new). seq self1 < n \<and> n \<le> seq self2"
    using f12 by (auto simp: framed_def)
  have sq: "seq self1 = seq self + 1" "seq self1 \<le> seq self2"
    using step_enter_props(2) [OF enter] f12 by (auto simp: framed_def)
  have as: "assigned ([bg] @ new @ [d]) = (seq self + 1) # assigned new"
    using bg s3(3) by (simp add: assigned_def)
  have clk: "clock self3 = clock self"
    using step_enter_props(1) [OF enter] f12 st
    by (auto simp: framed_def step_def enter b step_exit_def elapsed_def Let_def split: prod.splits if_splits)
  have "calls self3 = calls self @ ([bg] @ new @ [d])"
    using s3(2) new(1) bg(1) eq by simp
  moreover have "sorted_wrt (<) (assigned ([bg] @ new @ [d]))"
    unfolding as using new sq by auto
  moreover have "\<forall>n \<in> set (assigned ([bg] @ new @ [d])). seq self < n \<and> n \<le> seq self3"
    unfolding as using new sq s3(5) eq by auto
  ultimately show ?thesis
    unfolding framed_def using clk s3(4,5) eq sq by (metis add_increasing2 zero_le_one order_trans less_imp_le zless_add1_eq)
qed

lemma run_framed:
  "run p info self = (res, info1, self1) \<Longrightarrow> framed self self1"
proof (induction p arbitrary: info self res info1 self1)
  case (Seq p q)
  obtain r i s where p: "run p info self = (r, i, s)" by (metis prod.exhaust)
  show ?case
  proof (cases r)
    case (Inl e)
    then show ?thesis using Seq.prems Seq.IH(1) [OF p] p by simp
  next
    case (Inr u)
    then have "run q i s = (res, info1, self1)" using Seq.prems p by simp
    then show ?thesis using Seq.IH(1) [OF p] Seq.IH(2) framed_trans by blast
  qed
next
  case (Try p)
  then show ?case by (auto split: prod.splits)
next
  case (With msg a p)
  obtain r s where st: "step msg a None (run p) self = (r, s)" by (metis prod.exhaust)
  have "framed self s" using framed_step [OF _ st] With.IH by blast
  then show ?case using With.prems st by simp
next
  case CallElapsed
  then have "self1 = snd (elapsed None self)" by (auto split: prod.splits)
  then show ?case using elapsed_state [of None self] by (auto simp: framed_refl framed_io)
next
  case (CallEta pct)
  then have "self1 = snd (eta pct self)" by (auto split: prod.splits)
  then show ?case using eta_state [of pct self] by (auto simp: framed_refl framed_io)
qed (auto simp: framed_refl)

section \<open>The handler, call by call\<close>

lemma flush_drains:
  "flush self = Inr (self\<lparr>buffer := [], target := target self @ buffer self\<rparr>)"
proof (induction "buffer self" arbitrary: self)
  case Nil
  then have "buffer self = []" by simp
  then show ?case by (subst flush.simps) (simp add: q_empty_def)
next
  case (Cons r rs)
  then have b: "buffer self = r # rs" by simp
  let ?s = "self\<lparr>buffer := rs, target := target self @ [r]\<rparr>"
  have "flush self = flush ?s"
    by (subst flush.simps) (simp add: b q_empty_def q_get_def)
  also have "\<dots> = Inr (?s\<lparr>buffer := [], target := target ?s @ buffer ?s\<rparr>)"
    by (rule Cons.hyps(1)) simp
  finally show ?case by (simp add: b)
qed

lemma buffer_ok_Nil: "buffer self = [] \<Longrightarrow> buffer_ok self"
  using linear [of "maxsize self" 0] by (simp add: buffer_ok_def)

lemma emit_unfold:
  assumes "buffer_ok self"
  shows "emit record self =
     (if flushLevel self \<le> levelno record
      then Inr (self\<lparr>timers := cancelled self, buffer := [],
                     target := target self @ enqueued record self\<rparr>)
      else Inr (start (self\<lparr>timers := cancelled self, buffer := enqueued record self\<rparr>)))"
proof (cases "q_full (maxsize self) (buffer self)")
  case True
  then obtain r rs where b: "buffer self = r # rs"
    by (cases "buffer self") (auto simp: q_full_def)
  have nf: "\<not> q_full (maxsize self) rs"
    using assms True by (auto simp: buffer_ok_def q_full_def b)
  show ?thesis using True nf
    by (cases "timer self")
       (simp_all add: emit_def Let_def b q_get_nowait_def q_put_def flush_drains
          enqueued_def cancelled_def)
next
  case False
  then show ?thesis
    by (cases "timer self")
       (simp_all add: emit_def Let_def q_put_def flush_drains enqueued_def cancelled_def)
qed

lemma set_pending:
  "set (pending self) = {j. j < length (timers self) \<and> t_status (timers self ! j) = Pending}"
  by (auto simp: pending_def)

lemma length_cancel: "length (cancel i ts) = length ts"
  by (simp add: cancel_def)

lemma pending_cancel:
  "j < length ts \<Longrightarrow> t_status (cancel i ts ! j) = Pending \<longleftrightarrow> j \<noteq> i \<and> t_status (ts ! j) = Pending"
  by (auto simp: cancel_def nth_list_update)

lemma length_cancelled: "length (cancelled self) = length (timers self)"
  by (simp add: cancelled_def length_cancel split: option.splits)

lemma set_pending_cancelled:
  "set (pending (self\<lparr>timers := cancelled self\<rparr>)) = set (pending self) - set_option (timer self)"
  by (cases "timer self") (auto simp: set_pending cancelled_def length_cancel pending_cancel)

lemma set_pending_start:
  "set (pending (start self)) = set (pending self) \<union> {length (timers self)}"
  by (auto simp: set_pending start_def nth_append less_Suc_eq)

lemma pending_frame:
  "timers s = timers self \<Longrightarrow> pending s = pending self"
  by (simp add: pending_def)

lemma stop_unfold:
  "stop self = Inr (self\<lparr>timers := cancelled self, timer := None, buffer := [],
                        target := target self @ buffer self\<rparr>)"
  by (cases "timer self") (simp_all add: stop_def flush_drains cancelled_def)

lemma timer_run_unfold:
  "timer_run i self =
     (if i < length (timers self) \<and> t_status (timers self ! i) = Pending
      then Inr (self\<lparr>timers := (timers self)[i := (timers self ! i)\<lparr>t_status := Fired\<rparr>],
                     buffer := [], target := target self @ buffer self\<rparr>)
      else Inr self)"
  by (simp add: timer_run_def flush_drains)

lemma buffer_ok_enqueued:
  "buffer_ok self \<Longrightarrow> maxsize self \<le> 0 \<or> int (length (enqueued record self)) \<le> maxsize self"
  by (cases "buffer self") (auto simp: buffer_ok_def enqueued_def q_full_def)

lemma handle_event_ok:
  assumes "buffer_ok self"
  shows "\<exists>self'. handle_event ev self = Inr self' \<and> buffer_ok self' \<and> maxsize self' = maxsize self"
proof (cases ev)
  case (Emit r)
  show ?thesis using buffer_ok_enqueued [OF assms, of r]
    by (auto simp: Emit emit_unfold [OF assms] buffer_ok_def start_def)
next
  case Flush
  then show ?thesis by (simp add: flush_drains buffer_ok_Nil)
next
  case Stop
  then show ?thesis by (simp add: stop_unfold buffer_ok_Nil)
next
  case Start
  then show ?thesis using assms by (simp add: start_def buffer_ok_def)
next
  case (Expire i)
  then show ?thesis using assms by (simp add: timer_run_unfold buffer_ok_Nil)
qed

lemma run_events_ok:
  "buffer_ok self \<Longrightarrow>
   \<exists>self'. run_events evs self = Inr self' \<and> buffer_ok self' \<and> maxsize self' = maxsize self"
proof (induction evs arbitrary: self)
  case Nil
  then show ?case by simp
next
  case (Cons ev evs)
  obtain s1 where s1: "handle_event ev self = Inr s1" "buffer_ok s1" "maxsize s1 = maxsize self"
    using handle_event_ok [OF Cons.prems] by blast
  show ?case using Cons.IH [OF s1(2)] s1 by auto
qed

lemma init_ok: "buffer_ok (DebounceHandler_init C T L)" "maxsize (DebounceHandler_init C T L) = C"
  by (simp_all add: DebounceHandler_init_def start_def buffer_ok_Nil)

lemma tidy_handle_event:
  assumes ok: "buffer_ok self" and t: "tidy self" and ev: "ev \<noteq> Start"
      and h: "handle_event ev self = Inr self1"
  shows "tidy self1"
proof (cases ev)
  case (Emit r)
  let ?c = "self\<lparr>timers := cancelled self\<rparr>"
  have c: "set (pending ?c) = {}" using t by (auto simp: set_pending_cancelled tidy_def)
  show ?thesis
  proof (cases "flushLevel self \<le> levelno r")
    case True
    then have "self1 = self\<lparr>timers := cancelled self, buffer := [],
        target := target self @ enqueued r self\<rparr>"
      using h Emit by (simp add: emit_unfold [OF ok])
    then have "pending self1 = pending ?c" by (simp add: pending_def)
    then show ?thesis using c by (simp add: tidy_def)
  next
    case False
    let ?b = "self\<lparr>timers := cancelled self, buffer := enqueued r self\<rparr>"
    have s1: "self1 = start ?b" using h Emit False by (simp add: emit_unfold [OF ok])
    have "pending ?b = pending ?c" by (simp add: pending_def)
    then have "set (pending self1) = {length (timers ?b)}"
      using c by (simp add: s1 set_pending_start)
    moreover have "timer self1 = Some (length (timers ?b))" by (simp add: s1 start_def)
    ultimately show ?thesis by (simp add: tidy_def)
  qed
next
  case Flush
  then have "pending self1 = pending self" using h by (auto simp: flush_drains pending_def)
  moreover have "timer self1 = timer self" using h Flush by (auto simp: flush_drains)
  ultimately show ?thesis using t by (simp add: tidy_def)
next
  case Stop
  let ?c = "self\<lparr>timers := cancelled self\<rparr>"
  have c: "set (pending ?c) = {}" using t by (auto simp: set_pending_cancelled tidy_def)
  have "pending self1 = pending ?c" using h Stop by (auto simp: stop_unfold pending_def)
  then show ?thesis using c by (simp add: tidy_def)
next
  case Start
  then show ?thesis using ev by simp
next
  case (Expire i)
  have "set (pending self1) \<subseteq> set (pending self)" "timer self1 = timer self"
    using h Expire
    by (auto simp: timer_run_unfold set_pending nth_list_update split: if_splits)
  then show ?thesis using t by (auto simp: tidy_def)
qed

lemma tidy_run_events:
  "buffer_ok self \<Longrightarrow> tidy self \<Longrightarrow> Start \<notin> set evs \<Longrightarrow> run_events evs self = Inr self1
     \<Longrightarrow> tidy self1"
proof (induction evs arbitrary: self)
  case Nil
  then show ?case by simp
next
  case (Cons ev evs)
  obtain s where s: "handle_event ev self = Inr s" "buffer_ok s"
    using handle_event_ok [OF Cons.prems(1)] by blast
  have ne: "ev \<noteq> Start" using Cons.prems(3) by auto
  have "tidy s" using tidy_handle_event [OF Cons.prems(1,2) ne s(1)] .
  moreover have "run_events evs s = Inr self1" using Cons.prems(4) s(1) by simp
  ultimately show ?case using Cons.IH [OF s(2)] Cons.prems(3) by simp
qed

lemma tidy_init: "tidy (DebounceHandler_init C T L)"
  by (simp add: tidy_def DebounceHandler_init_def start_def pending_def)

lemma TextFilter_filter_iff:
  "TextFilter_filter skips0 record = (\<not> (\<exists>skip \<in> set skips0. prefix skip (message record)))"
  by (induction skips0) (auto simp: startswith_def)

lemma TextFilter_filter_level:
  "TextFilter_filter skips0 (record\<lparr>levelno := l\<rparr>) = TextFilter_filter skips0 record"
  by (induction skips0) auto

section \<open>Concrete runs\<close>

lemma event0_state: "stack event0 = []" "seq event0 = 0" "calls event0 = []"
  by (simp_all add: event0_def EventLogger_init_def)

lemma doctest_state:
  "clock doctest_at_eta = mock_clock" "stack doctest_at_eta = [(1, hms 12 30 1)]"
  "io doctest_at_eta = \<lparr>m_now = hms 12 30 21, m_delta = 7\<rparr>"
  by (simp_all add: doctest_at_eta_def doctest_body_def event0_def EventLogger_init_def
        MockIO_init_def mock_clock_def step_enter_def step_def step_exit_def elapsed_def
        Let_def hms_def seconds_def)


lemma doctest_clock:
  "clock doctest_at_eta (io doctest_at_eta) = (hms 12 30 28, \<lparr>m_now = hms 12 30 28, m_delta = 8\<rparr>)"
  by (simp add: doctest_state mock_clock_def Let_def hms_def seconds_def)



lemma micros_truncates: "micros 249 = 248"
  by code_simp






lemma d_stopped_eq: "stop d0 = Inr d_stopped"
  by (simp add: d0_def d_stopped_def DebounceHandler_init_def start_def stop_unfold cancelled_def
        cancel_def)

lemma d0_state:
  "buffer_ok d0" "tidy d0" "buffer d0 = []" "target d0 = []" "timer d0 = Some 0"
  "timers d0 = [\<lparr>t_interval = 1 / 2, t_status = Pending\<rparr>]" "flushLevel d0 = 30"
  "maxsize d0 = 2" "interval d0 = 1 / 2"
  by (simp_all add: d0_def init_ok tidy_init)
     (simp_all add: DebounceHandler_init_def start_def WARN_def)


section \<open>The claims\<close>






text \<open>
  C6. With a frame on the stack, \<^verbatim>\<open>eta(0)\<close> reads the clock and raises
  ZeroDivisionError; it returns no timestamp.
\<close>

theorem eta_zero:
  assumes "stack self \<noteq> []"
  shows "eta 0 self = (Inl ZeroDivisionError, self\<lparr>io := snd (clock self (io self))\<rparr>)"
  using assms
  by (simp add: eta_def truediv_def to_double_zero Let_def split: list.splits prod.splits)

theorem eta_zero_witness:
  "stack doctest_at_eta \<noteq> []
   \<and> eta 0 doctest_at_eta
       = (Inl ZeroDivisionError, doctest_at_eta\<lparr>io := \<lparr>m_now = hms 12 30 28, m_delta = 8\<rparr>\<rparr>)"
proof -
  have h: "stack doctest_at_eta \<noteq> []" by (simp add: doctest_state)
  show ?thesis using h eta_zero [OF h] by (simp add: doctest_clock)
qed

text \<open>
  C7. Whatever script runs on a freshly constructed logger, the sequence numbers of the
  steps it enters, in the order of entry, are strictly increasing; so none is given twice.
\<close>

theorem seq_strictly_increasing:
  "sorted_wrt (<) (assigned (calls (snd (snd (run p info (EventLogger_init clk c))))))
   \<and> distinct (assigned (calls (snd (snd (run p info (EventLogger_init clk c))))))"
proof -
  let ?s = "EventLogger_init clk c"
  obtain r i s where run: "run p info ?s = (r, i, s)" by (metis prod.exhaust)
  have "framed ?s s" using run by (rule run_framed)
  then have "sorted_wrt (<) (assigned (calls s))"
    by (auto simp: framed_def EventLogger_init_def)
  then show ?thesis using run by (simp add: strict_sorted_iff)
qed

text \<open>
  C10. On a logger with an empty step stack, \<^verbatim>\<open>elapsed()\<close> without a reference time and
  \<^verbatim>\<open>eta(pct)\<close> for any \<open>pct\<close> raise IndexError, before the clock is read.
\<close>

theorem empty_stack_IndexError:
  assumes "stack self = []"
  shows "elapsed None self = (Inl IndexError, self) \<and> eta pct self = (Inl IndexError, self)"
  using assms by (simp add: elapsed_def eta_def)

theorem empty_stack_IndexError_witness:
  "stack event0 = [] \<and> elapsed None event0 = (Inl IndexError, event0)
     \<and> eta 25 event0 = (Inl IndexError, event0)"
proof -
  have h: "stack event0 = []" by (simp add: event0_state)
  show ?thesis using h empty_stack_IndexError [OF h, of 25] by simp
qed

text \<open>
  C3, as amended. A handler constructed with capacity \<open>C > 0\<close>: after any sequence of calls of its
  methods and expiries of its timers, none of which raises, the buffer holds at most \<open>C\<close>
  records; a further \<^verbatim>\<open>emit\<close> does not raise and leaves at most \<open>C\<close> records; and when
  the buffer held \<open>C\<close> records, the oldest is dropped (it is neither buffered nor handed
  to the target) and the new record comes last.
\<close>

theorem buffer_bounded:
  assumes "0 < C"
  shows "\<exists>self. run_events evs (DebounceHandler_init C T L) = Inr self
           \<and> int (length (buffer self)) \<le> C
           \<and> (\<exists>self'. emit record self = Inr self'
                 \<and> int (length (buffer self')) \<le> C
                 \<and> (int (length (buffer self)) = C \<longrightarrow>
                      (if flushLevel self \<le> levelno record
                       then buffer self' = [] \<and> target self' = target self @ tl (buffer self) @ [record]
                       else buffer self' = tl (buffer self) @ [record] \<and> target self' = target self)))"
proof -
  obtain self where s: "run_events evs (DebounceHandler_init C T L) = Inr self"
      "buffer_ok self" "maxsize self = C"
    using run_events_ok [OF init_ok(1), of evs C T L] init_ok(2) by auto
  have len: "int (length (buffer self)) \<le> C" using s assms by (simp add: buffer_ok_def)
  have enq: "int (length (enqueued record self)) \<le> C"
    using buffer_ok_enqueued [OF s(2), of "record"] s(3) assms by simp
  have full: "int (length (buffer self)) = C \<Longrightarrow> enqueued record self = tl (buffer self) @ [record]"
    using assms s(3) by (simp add: enqueued_def q_full_def)
  show ?thesis using s(1) len enq full assms
    by (auto simp: emit_unfold [OF s(2)] start_def)
qed

theorem buffer_bounded_witness:
  "(0 :: int) < 2 \<and>
   (\<exists>self self'.
      run_events [Emit \<lparr>levelno = 20, message = ''quick one''\<rparr>,
                  Emit \<lparr>levelno = 20, message = ''quick two''\<rparr>]
        (DebounceHandler_init 2 (1 / 2) 30) = Inr self
    \<and> buffer self = [\<lparr>levelno = 20, message = ''quick one''\<rparr>,
                     \<lparr>levelno = 20, message = ''quick two''\<rparr>]
    \<and> emit \<lparr>levelno = 20, message = ''slow one''\<rparr> self = Inr self'
    \<and> buffer self' = [\<lparr>levelno = 20, message = ''quick two''\<rparr>,
                      \<lparr>levelno = 20, message = ''slow one''\<rparr>]
    \<and> target self' = [])"
proof -
  let ?evs = "[Emit \<lparr>levelno = 20, message = ''quick one''\<rparr>,
               Emit \<lparr>levelno = 20, message = ''quick two''\<rparr>]"
  let ?i = "DebounceHandler_init 2 (1 / 2) 30"
  obtain self self' where s: "run_events ?evs ?i = Inr self"
     "emit \<lparr>levelno = 20, message = ''slow one''\<rparr> self = Inr self'"
     "int (length (buffer self)) = 2 \<longrightarrow>
        (if flushLevel self \<le> levelno \<lparr>levelno = 20, message = ''slow one''\<rparr>
         then buffer self' = [] \<and> target self' = target self @ tl (buffer self) @ [\<lparr>levelno = 20, message = ''slow one''\<rparr>]
         else buffer self' = tl (buffer self) @ [\<lparr>levelno = 20, message = ''slow one''\<rparr>] \<and> target self' = target self)"
    using buffer_bounded [of 2 ?evs "1 / 2" 30 "\<lparr>levelno = 20, message = ''slow one''\<rparr>"]
    by auto
  have "run_events ?evs ?i = Inr \<lparr>target = [],
      buffer = [\<lparr>levelno = 20, message = ''quick one''\<rparr>, \<lparr>levelno = 20, message = ''quick two''\<rparr>],
      maxsize = 2, interval = 1 / 2, flushLevel = 30, timer = Some 2,
      timers = [\<lparr>t_interval = 1 / 2, t_status = Cancelled\<rparr>,
                \<lparr>t_interval = 1 / 2, t_status = Cancelled\<rparr>,
                \<lparr>t_interval = 1 / 2, t_status = Pending\<rparr>]\<rparr>"
    by (simp add: DebounceHandler_init_def start_def emit_def Let_def q_full_def q_put_def
          cancel_def)
  then show ?thesis using s by auto
qed

text \<open>
  With capacity 0 the queue is unbounded: after one \<^verbatim>\<open>emit\<close> the buffer holds one
  record, more than the capacity.
\<close>

theorem unbounded_at_capacity_zero:
  "run_events [Emit \<lparr>levelno = 20, message = ''quick one''\<rparr>]
       (DebounceHandler_init 0 (1 / 2) 30)
     = Inr \<lparr>target = [], buffer = [\<lparr>levelno = 20, message = ''quick one''\<rparr>], maxsize = 0,
            interval = 1 / 2, flushLevel = 30, timer = Some 1,
            timers = [\<lparr>t_interval = 1 / 2, t_status = Cancelled\<rparr>,
                      \<lparr>t_interval = 1 / 2, t_status = Pending\<rparr>]\<rparr>
   \<and> \<not> int (length [\<lparr>levelno = 20, message = ''quick one''\<rparr>]) \<le> 0"
  by (simp add: DebounceHandler_init_def start_def emit_def Let_def q_full_def q_put_def
        cancel_def)

text \<open>
  C4, as amended. \<^verbatim>\<open>emit\<close> on a handler whose queue is within its bound does not
  raise. It first cancels the timer the handler holds, the one started last, and puts
  the record into the buffer, dropping the oldest one when the buffer is full. For a
  record at or above the flush level it then hands the whole buffer, the new record
  last, to the target in order, and starts no timer: the timers are those before the
  call, the held one cancelled. For a record below the flush level it hands nothing to
  the target and starts one new timer of the handler's interval, which the handler holds
  from then on. A waiting timer that the handler no longer holds, replaced by a direct
  call of \<^verbatim>\<open>start()\<close>, is not cancelled and goes on waiting; when every waiting timer
  was the one the handler held, no timer waits after the first kind of call and only
  the new one after the second.
\<close>

theorem emit_flush_or_schedule:
  assumes "buffer_ok self"
  shows "\<exists>self'. emit record self = Inr self' \<and>
     (if flushLevel self \<le> levelno record
      then buffer self' = [] \<and> target self' = target self @ enqueued record self
         \<and> timer self' = timer self \<and> timers self' = cancelled self
         \<and> set (pending self') = set (pending self) - set_option (timer self)
         \<and> (tidy self \<longrightarrow> pending self' = [])
      else buffer self' = enqueued record self \<and> target self' = target self
         \<and> timer self' = Some (length (timers self))
         \<and> timers self' = cancelled self @ [\<lparr>t_interval = interval self, t_status = Pending\<rparr>]
         \<and> set (pending self') =
             (set (pending self) - set_option (timer self)) \<union> {length (timers self)}
         \<and> (tidy self \<longrightarrow> set (pending self') = {length (timers self)}))"
proof (cases "flushLevel self \<le> levelno record")
  case True
  let ?s = "self\<lparr>timers := cancelled self, buffer := [], target := target self @ enqueued record self\<rparr>"
  have "pending ?s = pending (self\<lparr>timers := cancelled self\<rparr>)"
    by (rule pending_frame) simp
  then have p: "set (pending ?s) = set (pending self) - set_option (timer self)"
    by (simp add: set_pending_cancelled)
  then have "tidy self \<longrightarrow> set (pending ?s) = {}" by (auto simp: tidy_def)
  then have "tidy self \<longrightarrow> pending ?s = []" by (simp only: set_empty)
  then show ?thesis using True p
    by (simp add: emit_unfold [OF assms])
next
  case False
  let ?s = "self\<lparr>timers := cancelled self, buffer := enqueued record self\<rparr>"
  have "pending ?s = pending (self\<lparr>timers := cancelled self\<rparr>)"
    by (rule pending_frame) simp
  then have p: "set (pending (start ?s)) =
      (set (pending self) - set_option (timer self)) \<union> {length (timers self)}"
    by (simp add: set_pending_start set_pending_cancelled length_cancelled)
  then have "tidy self \<longrightarrow> set (pending (start ?s)) = {length (timers self)}"
    by (auto simp: tidy_def)
  then show ?thesis using False p
    by (simp add: emit_unfold [OF assms]) (simp add: start_def length_cancelled)
qed

theorem emit_flush_or_schedule_witness:
  "buffer_ok d0 \<and>
   (\<exists>self'. emit \<lparr>levelno = 30, message = ''warning''\<rparr> d0 = Inr self'
      \<and> buffer self' = [] \<and> target self' = [\<lparr>levelno = 30, message = ''warning''\<rparr>]
      \<and> timers self' = [\<lparr>t_interval = 1 / 2, t_status = Cancelled\<rparr>]
      \<and> pending self' = [])"
proof -
  have e: "enqueued \<lparr>levelno = 30, message = ''warning''\<rparr> d0 = [\<lparr>levelno = 30, message = ''warning''\<rparr>]"
    by (simp add: enqueued_def d0_state q_full_def)
  have c: "cancelled d0 = [\<lparr>t_interval = 1 / 2, t_status = Cancelled\<rparr>]"
    by (simp add: cancelled_def d0_state cancel_def)
  show ?thesis
    using emit_flush_or_schedule [OF d0_state(1), of "\<lparr>levelno = 30, message = ''warning''\<rparr>"]
    by (auto simp: d0_state e c)
qed

text \<open>
  After the constructor and a call of \<^verbatim>\<open>start()\<close>, as in \<^verbatim>\<open>_integration_test\<close>, two
  timers wait and the handler holds the second. The \<^verbatim>\<open>emit\<close> of a record above the
  flush level cancels the second only: the constructor's timer still waits.
\<close>

theorem emit_leaves_replaced_timer:
  "pending (start d0) = [0, 1] \<and> timer (start d0) = Some 1
   \<and> emit \<lparr>levelno = 40, message = ''failed''\<rparr> (start d0)
       = Inr \<lparr>target = [\<lparr>levelno = 40, message = ''failed''\<rparr>], buffer = [], maxsize = 2,
              interval = 1 / 2, flushLevel = 30, timer = Some 1,
              timers = [\<lparr>t_interval = 1 / 2, t_status = Pending\<rparr>,
                        \<lparr>t_interval = 1 / 2, t_status = Cancelled\<rparr>]\<rparr>
   \<and> pending \<lparr>target = [\<lparr>levelno = 40, message = ''failed''\<rparr>], buffer = [], maxsize = 2,
              interval = 1 / 2, flushLevel = 30, timer = Some 1,
              timers = [\<lparr>t_interval = 1 / 2, t_status = Pending\<rparr>,
                        \<lparr>t_interval = 1 / 2, t_status = Cancelled\<rparr>]\<rparr> = [0]"
  by (simp add: d0_def DebounceHandler_init_def start_def pending_def emit_def Let_def
        q_full_def q_put_def cancel_def flush_drains WARN_def)

text \<open>
  C5, as amended. \<^verbatim>\<open>stop\<close> does not raise: it cancels the timer the handler holds,
  forgets it, hands the buffer to the target and starts no timer. The handler is not
  made inert. A later \<^verbatim>\<open>emit\<close> does not raise either: a record at or above the flush
  level is handed to the target at once and no timer is started; a record below it is
  buffered and a new timer of the handler's interval is started, as before the stop.
\<close>

theorem stop_then_emit:
  "\<exists>s1. stop self = Inr s1 \<and> timer s1 = None \<and> buffer s1 = []
        \<and> target s1 = target self @ buffer self
        \<and> timers s1 = cancelled self
        \<and> set (pending s1) = set (pending self) - set_option (timer self)
        \<and> (\<exists>s2. emit record s1 = Inr s2 \<and>
             (if flushLevel self \<le> levelno record
              then timers s2 = timers s1 \<and> timer s2 = None
                 \<and> buffer s2 = [] \<and> target s2 = target s1 @ [record]
              else timers s2 = timers s1 @ [\<lparr>t_interval = interval self, t_status = Pending\<rparr>]
                 \<and> timer s2 = Some (length (timers s1))
                 \<and> length (timers s1) \<in> set (pending s2)
                 \<and> buffer s2 = [record] \<and> target s2 = target s1))"
proof -
  let ?s1 = "self\<lparr>timers := cancelled self, timer := None, buffer := [],
                        target := target self @ buffer self\<rparr>"
  have ok: "buffer_ok ?s1" by (simp add: buffer_ok_Nil)
  have p: "pending ?s1 = pending (self\<lparr>timers := cancelled self\<rparr>)"
    by (rule pending_frame) simp
  have enq: "enqueued record ?s1 = [record]" by (simp add: enqueued_def q_full_def)
  have c: "cancelled ?s1 = cancelled self" by (simp add: cancelled_def)
  show ?thesis
    by (simp add: stop_unfold p set_pending_cancelled emit_unfold [OF ok] enq c)
       (simp add: start_def set_pending nth_append)
qed

text \<open>
  After \<^verbatim>\<open>DebounceHandler(capacity=2).stop()\<close> no timer waits; the \<^verbatim>\<open>emit\<close> of a
  record at INFO then neither raises nor leaves the handler as it was: the record is
  buffered and a new timer waits.
\<close>

theorem emit_after_stop_starts_timer:
  "stop d0 = Inr d_stopped \<and> pending d_stopped = []
   \<and> emit \<lparr>levelno = 20, message = ''last one''\<rparr> d_stopped
       = Inr \<lparr>target = [], buffer = [\<lparr>levelno = 20, message = ''last one''\<rparr>], maxsize = 2,
              interval = 1 / 2, flushLevel = 30, timer = Some 1,
              timers = [\<lparr>t_interval = 1 / 2, t_status = Cancelled\<rparr>,
                        \<lparr>t_interval = 1 / 2, t_status = Pending\<rparr>]\<rparr>
   \<and> pending \<lparr>target = [], buffer = [\<lparr>levelno = 20, message = ''last one''\<rparr>], maxsize = 2,
              interval = 1 / 2, flushLevel = 30, timer = Some 1,
              timers = [\<lparr>t_interval = 1 / 2, t_status = Cancelled\<rparr>,
                        \<lparr>t_interval = 1 / 2, t_status = Pending\<rparr>]\<rparr> = [1]"
  by (simp add: d_stopped_eq)
     (simp add: d_stopped_def pending_def emit_def Let_def q_full_def q_put_def start_def WARN_def)

text \<open>
  C8. \<^verbatim>\<open>TextFilter.filter\<close> returns false exactly when the record's message starts with
  one of the filter's prefixes; the record's level has no part in it; and a
  \<^verbatim>\<open>TextHandler\<close> writes a record to its stream exactly when its filter accepts it: a
  rejected record leaves the handler, stream included, as it was.
\<close>

theorem TextFilter_rejects:
  "(TextFilter_filter skips0 record = False
      \<longleftrightarrow> (\<exists>skip \<in> set skips0. \<exists>rest. message record = skip @ rest))
   \<and> TextFilter_filter skips0 (record\<lparr>levelno := l\<rparr>) = TextFilter_filter skips0 record
   \<and> TextHandler_handle record h =
       (if TextFilter_filter (skips h) record then (True, h\<lparr>stream := stream h @ [record]\<rparr>)
        else (False, h))"
proof -
  have "TextFilter_filter skips0 record = False
      \<longleftrightarrow> (\<exists>skip \<in> set skips0. \<exists>rest. message record = skip @ rest)"
    by (simp add: TextFilter_filter_iff prefix_def)
  moreover have "TextHandler_handle record h =
       (if TextFilter_filter (skips h) record then (True, h\<lparr>stream := stream h @ [record]\<rparr>)
        else (False, h))"
    by (simp add: TextHandler_handle_def Let_def)
  ultimately show ?thesis using TextFilter_filter_level by blast
qed

theorem TextFilter_rejects_witness:
  "TextFilter_filter [''slow'', ''quick''] \<lparr>levelno = 40, message = ''quick one''\<rparr> = False
   \<and> (\<exists>skip \<in> set [''slow'', ''quick'']. \<exists>rest. ''quick one'' = skip @ rest)
   \<and> TextHandler_handle \<lparr>levelno = 40, message = ''quick one''\<rparr>
        \<lparr>skips = [''slow'', ''quick''], stream = []\<rparr>
      = (False, \<lparr>skips = [''slow'', ''quick''], stream = []\<rparr>)"
proof -
  let ?r = "\<lparr>levelno = 40, message = ''quick one''\<rparr>"
  let ?h = "\<lparr>skips = [''slow'', ''quick''], stream = []\<rparr>"
  have f: "TextFilter_filter [''slow'', ''quick''] ?r = False"
    by (simp add: startswith_def)
  note t = TextFilter_rejects [of "[''slow'', ''quick'']" ?r 40 ?h]
  have ex: "\<exists>skip \<in> set [''slow'', ''quick'']. \<exists>rest. message ?r = skip @ rest"
    using t f by blast
  have "TextHandler_handle ?r ?h = (False, ?h)"
    using t f by (simp del: TextFilter_filter.simps)
  then show ?thesis using f ex by (simp del: TextFilter_filter.simps)
qed

text \<open>
  C9. \<^verbatim>\<open>flush\<close> on an empty buffer returns the handler as it is, handing nothing to the
  target. \<^verbatim>\<open>stop\<close> never raises, and a second \<^verbatim>\<open>stop\<close> right after it returns the
  handler as the first one left it: nothing more is handed to the target.
\<close>

theorem flush_empty_stop_twice:
  "(buffer self = [] \<longrightarrow> flush self = Inr self)
   \<and> (\<exists>s1. stop self = Inr s1 \<and> stop s1 = Inr s1)"
proof -
  let ?s1 = "self\<lparr>timers := cancelled self, timer := None, buffer := [],
                        target := target self @ buffer self\<rparr>"
  have "stop ?s1 = Inr ?s1" by (simp add: stop_unfold cancelled_def)
  then show ?thesis by (simp add: stop_unfold flush_drains)
qed

theorem flush_empty_stop_twice_witness:
  "buffer d0 = [] \<and> flush d0 = Inr d0 \<and> stop d0 = Inr d_stopped \<and> stop d_stopped = Inr d_stopped"
  using flush_empty_stop_twice [of d0] by (auto simp: d0_state d_stopped_eq)

end
